theory Spec2Isabelle
  imports Main "HOL-Library.Word" "HOL-Library.Char_ord" "HOL-Library.List_Lexorder"
begin

section \<open>Strings, errors and the text libraries\<close>

text \<open>
  A Go string is a sequence of bytes: \<open>string\<close> (a \<open>char list\<close>, each \<open>char\<close> one byte).
  \<open>int64\<close> is \<open>64 word\<close>, read through \<open>sint\<close>; \<open>+\<close> wraps as Go's does.
\<close>

type_synonym int64 = "64 word"

datatype error = ErrSyntax | ErrRange | EscapeError string | ErrWeekFormat string

text \<open>
  \<open>formatLine\<close> calls four functions of Go's Unicode libraries whose results depend on
  the Unicode tables: \<open>cases.Fold().String\<close>, the iterator \<open>norm.Iter\<close> over
  \<open>norm.NFC\<close>, \<open>strings.ToLowerSpecial\<close> (for \<open>unicode.AzeriCase\<close> and
  \<open>unicode.TurkishCase\<close>) and \<open>strings.ToLower\<close>. They are parameters of the model.
  The iterator is the list of the slices that successive calls of \<open>Next\<close> return
  until \<open>Done\<close>; \<open>Next\<close> never returns an empty slice before \<open>Done\<close>, so a
  segment is its first byte and the bytes after it.
\<close>

type_synonym segment = "char \<times> string"

record textlib =
  caser_String :: "string \<Rightarrow> string"
  norm_Iter :: "string \<Rightarrow> segment list"
  ToLowerSpecial_Azeri :: "string \<Rightarrow> string"
  ToLowerSpecial_Turkish :: "string \<Rightarrow> string"
  strings_ToLower :: "string \<Rightarrow> string"

definition byte :: "char \<Rightarrow> nat" where
  "byte c = of_char c"

text \<open>\<open>strings.SplitN(s, sep, n)\<close> for a one-byte separator and \<open>n \<ge> 0\<close>.\<close>

fun cutByte :: "char \<Rightarrow> string \<Rightarrow> (string \<times> string) option" where
  "cutByte sep [] = None"
| "cutByte sep (c # cs) =
     (if c = sep then Some ([], cs)
      else (case cutByte sep cs of None \<Rightarrow> None | Some (a, b) \<Rightarrow> Some (c # a, b)))"

fun SplitN :: "string \<Rightarrow> char \<Rightarrow> nat \<Rightarrow> string list" where
  "SplitN s sep 0 = []"
| "SplitN s sep (Suc 0) = [s]"
| "SplitN s sep (Suc (Suc n)) =
     (case cutByte sep s of None \<Rightarrow> [s] | Some (a, b) \<Rightarrow> a # SplitN b sep (Suc n))"

section \<open>The key normalizer: formatLine (util.go)\<close>

text \<open>
  The \<open>switch lang\<close> statement of \<open>formatLine\<close>: the values of \<open>lang\<close>, \<open>site\<close> and
  \<open>title\<close> after it. Go's switch tests the value \<open>lang\<close> had on entry, once, in the
  order of the cases; a \<open>fallthrough\<close> case shares the body of the next one.
\<close>

definition langSwitch :: "textlib \<Rightarrow> string \<Rightarrow> string \<Rightarrow> string \<Rightarrow> string \<times> string \<times> string" where
  "langSwitch L lang site title =
    (if lang = '''' then
       (''und'',
        (if site = ''wikidatawiki'' then ''wikidata''
         else if site = ''wikimaniawiki'' then ''wikimania''
         else site),
        title)
     else if lang = ''az'' then (lang, site, ToLowerSpecial_Azeri L title)
     else if lang = ''als'' then (''gsw'', site, title)
     else if lang = ''bat_smg'' \<or> lang = ''bat-smg'' then (''sgs'', site, title)
     else if lang = ''be_x_old'' then (''be-tarask'', site, title)
     else if lang = ''cbk_zam'' \<or> lang = ''cbk-zam'' then (''cbk-x-zam'', site, title)
     else if lang = ''commons'' then (''und'', ''commons'', title)
     else if lang = ''fiu_vro'' \<or> lang = ''fiu-vro'' then (''vro'', site, title)
     else if lang = ''incubator'' then
       (let parts = SplitN title (CHR ''/'') 3 in
        if length parts = 3 \<and> (parts ! 0 = ''Wp'' \<or> parts ! 0 = ''wp'') \<and>
           length (parts ! 1) < 20
        then (strings_ToLower L (parts ! 1), site, parts ! 2)
        else (lang, site, title))
     else if lang = ''map_bms'' \<or> lang = ''map-bms'' then (''jv-x-bms'', site, title)
     else if lang = ''media'' then (''und'', ''mediawiki'', title)
     else if lang = ''meta'' then (''und'', ''metawiki'', title)
     else if lang = ''roa_rup'' \<or> lang = ''roa-rup'' then (''rup'', site, title)
     else if lang = ''roa_tara'' \<or> lang = ''roa-tara'' then (''nap-x-tara'', site, title)
     else if lang = ''simple'' then (''en-x-simple'', site, title)
     else if lang = ''sources'' then (''und'', ''wikisource'', title)
     else if lang = ''species'' then (''und'', ''wikispecies'', title)
     else if lang = ''nds_nl'' \<or> lang = ''nds-nl'' then (''nds-NL'', site, title)
     else if lang = ''tr'' then (lang, site, ToLowerSpecial_Turkish L title)
     else if lang = ''zh_classical'' \<or> lang = ''zh-classical'' then (''lzh'', site, title)
     else if lang = ''zh_min_nan'' \<or> lang = ''zh-min-nan'' then (''nan'', site, title)
     else if lang = ''zh_yue'' \<or> lang = ''zh-yue'' then (''yue'', site, title)
     else (lang, site, title))"

text \<open>
  The loop \<open>for !it.Done() { c := it.Next(); ... }\<close> over the segments, writing into the
  buffer \<open>buf\<close>: a segment whose first byte is above 0x20 is written whole, any other
  segment is written as the one byte \<open>_\<close>.
\<close>

fun writeSegments :: "string \<Rightarrow> segment list \<Rightarrow> string" where
  "writeSegments buf [] = buf"
| "writeSegments buf (c # cs) =
     writeSegments (if 0x20 < byte (fst c) then buf @ (fst c # snd c) else buf @ ''_'') cs"

definition formatLine :: "textlib \<Rightarrow> string \<Rightarrow> string \<Rightarrow> string \<Rightarrow> string \<Rightarrow> string" where
  "formatLine L lang0 site0 title0 val =
    (case langSwitch L lang0 site0 title0 of (lang, site, title) \<Rightarrow>
      (let buf = [];
           buf = buf @ lang;
           buf = buf @ ''.'';
           buf = buf @ site;
           buf = buf @ ''/'';
           buf = writeSegments buf (norm_Iter L (caser_String L title));
           buf = buf @ '' '';
           buf = buf @ val
       in buf))"

text \<open>What one segment contributes to the line, and the key of a line: language, site and
  emitted title, up to the separating space.\<close>

definition segmentOut :: "segment \<Rightarrow> string" where
  "segmentOut c = (if 0x20 < byte (fst c) then fst c # snd c else ''_'')"

definition emittedTitle :: "textlib \<Rightarrow> string \<Rightarrow> string" where
  "emittedTitle L title = concat (map segmentOut (norm_Iter L (caser_String L title)))"

definition wikiKey :: "textlib \<Rightarrow> string \<Rightarrow> string \<Rightarrow> string \<Rightarrow> string" where
  "wikiKey L lang0 site0 title0 =
    (case langSwitch L lang0 site0 title0 of (lang, site, title) \<Rightarrow>
       lang @ ''.'' @ site @ ''/'' @ emittedTitle L title)"

section \<open>Library functions with a fixed meaning\<close>

subsection \<open>strings.Split and strings.Fields\<close>

text \<open>\<open>strings.Split(s, sep)\<close> for a one-byte separator: \<open>cur\<close> is the field being read.\<close>

fun splitLoop :: "char \<Rightarrow> string \<Rightarrow> string \<Rightarrow> string list" where
  "splitLoop sep cur [] = [cur]"
| "splitLoop sep cur (c # cs) =
     (if c = sep then cur # splitLoop sep [] cs else splitLoop sep (cur @ [c]) cs)"

definition Split :: "string \<Rightarrow> char \<Rightarrow> string list" where
  "Split s sep = splitLoop sep [] s"

text \<open>
  \<open>strings.Fields\<close> splits around runs of white space as \<open>unicode.IsSpace\<close> defines it:
  the ASCII bytes 9 to 13 and 32, and the code points U+0085, U+00A0, U+1680,
  U+2000 to U+200A, U+2028, U+2029, U+202F, U+205F and U+3000 in their UTF-8 encoding.
  \<open>spaceWidth s\<close> is the number of bytes of the white-space rune \<open>s\<close> starts with, 0 when
  it starts with none.
\<close>

definition spaceWidth :: "string \<Rightarrow> nat" where
  "spaceWidth s =
    (case map byte (take 3 s) of
       [] \<Rightarrow> 0
     | b0 # bs \<Rightarrow>
         if (9 \<le> b0 \<and> b0 \<le> 13) \<or> b0 = 32 then 1
         else if b0 < 0x80 then 0
         else (case bs of
             [] \<Rightarrow> 0
           | b1 # bs' \<Rightarrow>
               if b0 = 0xC2 \<and> (b1 = 0x85 \<or> b1 = 0xA0) then 2
               else (case bs' of
                   [] \<Rightarrow> 0
                 | b2 # x \<Rightarrow>
                     if b0 = 0xE1 \<and> b1 = 0x9A \<and> b2 = 0x80 then 3
                     else if b0 = 0xE2 \<and> b1 = 0x80 \<and>
                        ((0x80 \<le> b2 \<and> b2 \<le> 0x8A) \<or> b2 = 0xA8 \<or> b2 = 0xA9 \<or> b2 = 0xAF) then 3
                     else if b0 = 0xE2 \<and> b1 = 0x81 \<and> b2 = 0x9F then 3
                     else if b0 = 0xE3 \<and> b1 = 0x80 \<and> b2 = 0x80 then 3
                     else 0)))"

function fieldsLoop :: "string \<Rightarrow> string \<Rightarrow> string list" where
  "fieldsLoop cur [] = (if cur = [] then [] else [cur])"
| "fieldsLoop cur (c # cs) =
     (if spaceWidth (c # cs) = 0 then fieldsLoop (cur @ [c]) cs
      else (if cur = [] then [] else [cur]) @ fieldsLoop [] (drop (spaceWidth (c # cs) - 1) cs))"
  by pat_completeness auto
termination
  by (relation "measure (\<lambda>(cur, s). length s)") auto

definition Fields :: "string \<Rightarrow> string list" where
  "Fields s = fieldsLoop [] s"

fun IndexByte :: "string \<Rightarrow> char \<Rightarrow> nat option" where
  "IndexByte [] c = None"
| "IndexByte (x # xs) c =
     (if x = c then Some 0 else (case IndexByte xs c of None \<Rightarrow> None | Some i \<Rightarrow> Some (Suc i)))"

subsection \<open>url.QueryUnescape and utf8.ValidString\<close>

definition ishex :: "char \<Rightarrow> bool" where
  "ishex c = ((48 \<le> byte c \<and> byte c \<le> 57) \<or> (97 \<le> byte c \<and> byte c \<le> 102) \<or>
              (65 \<le> byte c \<and> byte c \<le> 70))"

definition unhex :: "char \<Rightarrow> nat" where
  "unhex c =
    (if 48 \<le> byte c \<and> byte c \<le> 57 then byte c - 48
     else if 97 \<le> byte c \<and> byte c \<le> 102 then byte c - 97 + 10
     else if 65 \<le> byte c \<and> byte c \<le> 70 then byte c - 65 + 10
     else 0)"

text \<open>
  \<open>url.QueryUnescape\<close>: \<open>%XX\<close> becomes the byte XX, \<open>+\<close> becomes a space; a \<open>%\<close> that
  two hexadecimal digits do not follow is an \<open>EscapeError\<close> holding the bad escape.
\<close>

fun QueryUnescape :: "string \<Rightarrow> error + string" where
  "QueryUnescape [] = Inr []"
| "QueryUnescape (c # cs) =
     (if c = CHR ''%'' then
        (case cs of
           h1 # h2 # rest \<Rightarrow>
             if ishex h1 \<and> ishex h2 then
               (case QueryUnescape rest of
                  Inl e \<Rightarrow> Inl e
                | Inr t \<Rightarrow> Inr (char_of (unhex h1 * 16 + unhex h2) # t))
             else Inl (EscapeError (take 3 (c # cs)))
         | x \<Rightarrow> Inl (EscapeError (take 3 (c # cs))))
      else (case QueryUnescape cs of
              Inl e \<Rightarrow> Inl e
            | Inr t \<Rightarrow> Inr ((if c = CHR ''+'' then CHR '' '' else c) # t)))"

definition cont :: "nat \<Rightarrow> bool" where
  "cont b = (0x80 \<le> b \<and> b \<le> 0xBF)"

text \<open>\<open>utf8.ValidString\<close>, on the byte values: the accept ranges of Go's decoder.\<close>

fun validBytes :: "nat list \<Rightarrow> bool" where
  "validBytes [] = True"
| "validBytes (b0 # bs) =
     (if b0 < 0x80 then validBytes bs
      else if 0xC2 \<le> b0 \<and> b0 \<le> 0xDF then
        (case bs of b1 # r \<Rightarrow> cont b1 \<and> validBytes r | x \<Rightarrow> False)
      else if 0xE0 \<le> b0 \<and> b0 \<le> 0xEF then
        (case bs of
           b1 # b2 # r \<Rightarrow>
             (if b0 = 0xE0 then 0xA0 \<le> b1 \<and> b1 \<le> 0xBF
              else if b0 = 0xED then 0x80 \<le> b1 \<and> b1 \<le> 0x9F
              else cont b1) \<and> cont b2 \<and> validBytes r
         | x \<Rightarrow> False)
      else if 0xF0 \<le> b0 \<and> b0 \<le> 0xF4 then
        (case bs of
           b1 # b2 # b3 # r \<Rightarrow>
             (if b0 = 0xF0 then 0x90 \<le> b1 \<and> b1 \<le> 0xBF
              else if b0 = 0xF4 then 0x80 \<le> b1 \<and> b1 \<le> 0x8F
              else cont b1) \<and> cont b2 \<and> cont b3 \<and> validBytes r
         | x \<Rightarrow> False)
      else False)"

definition ValidString :: "string \<Rightarrow> bool" where
  "ValidString s = validBytes (map byte s)"

subsection \<open>strconv.ParseInt, strconv.Atoi and strconv.FormatInt (base 10, 64 bits)\<close>

definition isDigit :: "char \<Rightarrow> bool" where
  "isDigit c = (48 \<le> byte c \<and> byte c \<le> 57)"

text \<open>
  The digit loop of \<open>strconv.ParseUint\<close>: a byte that is no digit is a syntax error, a
  value that leaves \<open>uint64\<close> a range error, whichever comes first.
\<close>

fun parseUintLoop :: "int \<Rightarrow> string \<Rightarrow> error + int" where
  "parseUintLoop n [] = Inr n"
| "parseUintLoop n (c # cs) =
     (if \<not> isDigit c then Inl ErrSyntax
      else if 2 ^ 64 \<le> n * 10 + (int (byte c) - 48) then Inl ErrRange
      else parseUintLoop (n * 10 + (int (byte c) - 48)) cs)"

definition ParseUint :: "string \<Rightarrow> error + int" where
  "ParseUint s = (if s = [] then Inl ErrSyntax else parseUintLoop 0 s)"

text \<open>
  \<open>strconv.ParseInt(s, 10, 64)\<close> returns a value and an error, as in Go: 0 with a syntax
  error, the nearest bound with a range error.
\<close>

definition ParseInt :: "string \<Rightarrow> int64 \<times> error option" where
  "ParseInt s =
    (case s of
       [] \<Rightarrow> (0, Some ErrSyntax)
     | c # cs \<Rightarrow>
        (let neg = (c = CHR ''-'');
             s1 = (if c = CHR ''+'' \<or> c = CHR ''-'' then cs else s)
         in case ParseUint s1 of
              Inl ErrSyntax \<Rightarrow> (0, Some ErrSyntax)
            | Inl e \<Rightarrow> (if neg then (- (2 ^ 63), Some ErrRange) else (2 ^ 63 - 1, Some ErrRange))
            | Inr un \<Rightarrow>
                if \<not> neg \<and> 2 ^ 63 \<le> un then (2 ^ 63 - 1, Some ErrRange)
                else if neg \<and> 2 ^ 63 < un then (- (2 ^ 63), Some ErrRange)
                else (if neg then - word_of_int un else word_of_int un, None)))"

definition Atoi :: "string \<Rightarrow> int \<times> error option" where
  "Atoi s = (case ParseInt s of (i, err) \<Rightarrow> (sint i, err))"

text \<open>The decimal digits of a number that is not negative.\<close>

function formatNat :: "int \<Rightarrow> string" where
  "formatNat n =
     (if n < 10 then [char_of (48 + nat n)]
      else formatNat (n div 10) @ [char_of (48 + nat (n mod 10))])"
  by pat_completeness auto
termination
  by (relation "measure nat") auto

declare formatNat.simps [simp del]

definition FormatInt :: "int64 \<Rightarrow> string" where
  "FormatInt i = (if sint i < 0 then ''-'' @ formatNat (- sint i) else formatNat (sint i))"

section \<open>The Count Combiner: combineCounts and writeCount (main.go)\<close>

text \<open>
  The writer \<open>w\<close> is the list of the chunks written to it, one per \<open>buf.WriteTo(w)\<close>.
  The model runs each function to its return: the context is not cancelled, the channel
  takes every line sent, and the in-memory buffer and the writer do not fail.
  \<open>combineCounts\<close> returns what it wrote and its error.
\<close>

definition writeCount :: "string list \<Rightarrow> string \<Rightarrow> int64 \<Rightarrow> string list" where
  "writeCount w key count =
     (if sint count \<le> 0 then w else w @ [key @ '' '' @ FormatInt count @ [CHR 0x0A]])"

fun combineLoop :: "string \<Rightarrow> int64 \<Rightarrow> string list \<Rightarrow> string list \<Rightarrow> string list \<times> error option" where
  "combineLoop lastKey lastCount w [] = (writeCount w lastKey lastCount, None)"
| "combineLoop lastKey lastCount w (line # ch) =
     (let cols = Split line (CHR '' '') in
      if length cols \<noteq> 2 then combineLoop lastKey lastCount w ch
      else
        (let key = cols ! 0 in
         case ParseInt (cols ! 1) of
           (count, Some err) \<Rightarrow> (w, Some err)
         | (count, None) \<Rightarrow>
             if key = lastKey then combineLoop lastKey (lastCount + count) w ch
             else combineLoop key count (writeCount w lastKey lastCount) ch))"

definition combineCounts :: "string list \<Rightarrow> string list \<times> error option" where
  "combineCounts ch = combineLoop [] 0 [] ch"

section \<open>The pageview reader: readPageviews and emitPageviews (main.go)\<close>

text \<open>
  \<open>emitPageviews\<close> appends to the channel \<open>ch\<close>, the list of the lines sent so far.
\<close>

definition emitPageviews :: "textlib \<Rightarrow> string \<Rightarrow> string \<Rightarrow> int64 \<Rightarrow> string list \<Rightarrow> string list" where
  "emitPageviews L site title count ch =
     (if 0 < sint count then
        (case IndexByte site (CHR ''.'') of
           None \<Rightarrow> ch
         | Some dot \<Rightarrow>
             ch @ [formatLine L (take dot site) (drop (dot + 1) site) title (FormatInt count)])
      else ch)"

text \<open>
  The checks of the loop body on one line of the log: \<open>Skip\<close> where the body reaches a
  \<open>continue\<close>, otherwise the site, the title and the count of the row.
\<close>

datatype row = Skip | Row string string int64

text \<open>
  \<open>title, err := url.QueryUnescape(cols[1]); if err != nil { title = cols[1] }\<close>
\<close>

definition unescapeTitle :: "string \<Rightarrow> string" where
  "unescapeTitle col = (case QueryUnescape col of Inl err \<Rightarrow> col | Inr t \<Rightarrow> t)"

definition parseRow :: "string \<Rightarrow> row" where
  "parseRow text =
    (let cols = Fields text in
     if length cols \<noteq> 6 then Skip
     else
       (let site = cols ! 0 in
        if site = ''en-wg.wikipedia'' then Skip
        else
          (let title = unescapeTitle (cols ! 1) in
           if \<not> ValidString title then Skip
           else (case ParseInt (cols ! 4) of
                   (c, Some err) \<Rightarrow> Skip
                 | (c, None) \<Rightarrow> Row site title c))))"

record pv_state =
  lastSite :: string
  lastTitle :: string
  lastCount :: int64

text \<open>
  The scanner loop over the lines of the reader: \<open>n\<close> counts the lines, and a test run
  stops at the 500th.
\<close>

fun scanLoop :: "textlib \<Rightarrow> bool \<Rightarrow> nat \<Rightarrow> pv_state \<Rightarrow> string list \<Rightarrow> string list \<Rightarrow> pv_state \<times> string list" where
  "scanLoop L testRun n st ch [] = (st, ch)"
| "scanLoop L testRun n st ch (text # rest) =
     (if testRun \<and> 500 \<le> n + 1 then (st, ch)
      else (case parseRow text of
          Skip \<Rightarrow> scanLoop L testRun (n + 1) st ch rest
        | Row site title c \<Rightarrow>
            if site = lastSite st \<and> title = lastTitle st
            then scanLoop L testRun (n + 1) (st\<lparr>lastCount := lastCount st + c\<rparr>) ch rest
            else scanLoop L testRun (n + 1)
                   \<lparr>lastSite = site, lastTitle = title, lastCount = c\<rparr>
                   (emitPageviews L (lastSite st) (lastTitle st) (lastCount st) ch) rest))"

definition readPageviews :: "textlib \<Rightarrow> bool \<Rightarrow> string list \<Rightarrow> string list" where
  "readPageviews L testRun lines =
    (case scanLoop L testRun 0 \<lparr>lastSite = [], lastTitle = [], lastCount = 0\<rparr> [] lines of
       (st, ch) \<Rightarrow> emitPageviews L (lastSite st) (lastTitle st) (lastCount st) ch)"

section \<open>ISO weeks: ParseISOWeek and ISOWeekStart (util.go)\<close>

text \<open>
  \<open>isoWeekRegexp\<close> is \<open>(\d{4})-W(\d{2})\<close>, not anchored; \<open>\d\<close> is an ASCII digit.
  \<open>matchHere\<close> matches it at the head of a string; \<open>FindStringSubmatch\<close> returns the
  leftmost match and its two groups.
\<close>

definition matchHere :: "string \<Rightarrow> string list option" where
  "matchHere s =
    (case s of
       d1 # d2 # d3 # d4 # m # w # e1 # e2 # x \<Rightarrow>
         if isDigit d1 \<and> isDigit d2 \<and> isDigit d3 \<and> isDigit d4 \<and> m = CHR ''-'' \<and>
            w = CHR ''W'' \<and> isDigit e1 \<and> isDigit e2
         then Some [take 8 s, [d1, d2, d3, d4], [e1, e2]]
         else None
     | x \<Rightarrow> None)"

fun FindStringSubmatch :: "string \<Rightarrow> string list option" where
  "FindStringSubmatch [] = None"
| "FindStringSubmatch (c # cs) =
     (case matchHere (c # cs) of Some m \<Rightarrow> Some m | None \<Rightarrow> FindStringSubmatch cs)"

definition ParseISOWeek :: "string \<Rightarrow> int \<times> int \<times> error option" where
  "ParseISOWeek s =
    (case FindStringSubmatch s of
       None \<Rightarrow> (0, 0, Some (ErrWeekFormat s))
     | Some m \<Rightarrow>
         if length m \<noteq> 3 then (0, 0, Some (ErrWeekFormat s))
         else (fst (Atoi (m ! 1)), fst (Atoi (m ! 2)), None))"











section \<open>A small model of the text libraries\<close>

text \<open>
  \<open>latin_text\<close> is a concrete library for running the model on examples. It does what
  Go's libraries do on well-formed UTF-8 text in which case folding changes no character
  but A to Z and U+00C0 to U+00DE (U+00D7 is no letter), and in which a combining mark
  U+0300 to U+036F stands only after a character it does not compose with: the folding
  maps those letters to their lower case, and a segment of the NFC iterator is one
  character with the combining marks that follow it. Its lower case is that of ASCII text.
\<close>

definition asciiLower :: "char \<Rightarrow> char" where
  "asciiLower c = (if 65 \<le> byte c \<and> byte c \<le> 90 then char_of (byte c + 32) else c)"

fun foldLatin :: "string \<Rightarrow> string" where
  "foldLatin [] = []"
| "foldLatin [c] = [asciiLower c]"
| "foldLatin (c # d # cs) =
     (if byte c = 0xC3 \<and> 0x80 \<le> byte d \<and> byte d \<le> 0x9E \<and> byte d \<noteq> 0x97
      then c # char_of (byte d + 0x20) # foldLatin cs
      else asciiLower c # foldLatin (d # cs))"

definition runeWidth :: "char \<Rightarrow> nat" where
  "runeWidth c =
     (if byte c < 0xC0 then 1 else if byte c < 0xE0 then 2 else if byte c < 0xF0 then 3 else 4)"

function runes :: "string \<Rightarrow> segment list" where
  "runes [] = []"
| "runes (c # cs) = (c, take (runeWidth c - 1) cs) # runes (drop (runeWidth c - 1) cs)"
  by pat_completeness auto
termination
  by (relation "measure length") auto

definition isMark :: "segment \<Rightarrow> bool" where
  "isMark r =
     (case snd r of
        [d] \<Rightarrow> (byte (fst r) = 0xCC \<and> 0x80 \<le> byte d \<and> byte d \<le> 0xBF) \<or>
               (byte (fst r) = 0xCD \<and> 0x80 \<le> byte d \<and> byte d \<le> 0xAF)
      | x \<Rightarrow> False)"

text \<open>\<open>cur\<close> is the segment being read: a mark joins it, any other character starts the next.\<close>

fun joinMarks :: "segment \<Rightarrow> segment list \<Rightarrow> segment list" where
  "joinMarks cur [] = [cur]"
| "joinMarks cur (r # rs) =
     (if isMark r then joinMarks (fst cur, snd cur @ fst r # snd r) rs
      else cur # joinMarks r rs)"

definition segmentsLatin :: "string \<Rightarrow> segment list" where
  "segmentsLatin s = (case runes s of [] \<Rightarrow> [] | r # rs \<Rightarrow> joinMarks r rs)"

text \<open>Lower case with the dotless i of Azeri and Turkish for the ASCII letter I.\<close>

fun lowerTurkic :: "string \<Rightarrow> string" where
  "lowerTurkic [] = []"
| "lowerTurkic (c # cs) =
     (if c = CHR ''I'' then CHR 0xC4 # CHR 0xB1 # lowerTurkic cs else asciiLower c # lowerTurkic cs)"

definition latin_text :: textlib where
  "latin_text =
     \<lparr>caser_String = foldLatin, norm_Iter = segmentsLatin,
      ToLowerSpecial_Azeri = lowerTurkic, ToLowerSpecial_Turkish = lowerTurkic,
      strings_ToLower = map asciiLower\<rparr>"

section \<open>Notions used in the statements\<close>

text \<open>
  The part of a line before its value: the line without the value and the byte in front
  of it.
\<close>

definition lineKey :: "string \<Rightarrow> string \<Rightarrow> string" where
  "lineKey line val = take (length line - Suc (length val)) line"




text \<open>
  The lines the combiner reads: those with exactly two fields around single spaces, with
  the key and the count of such a line, and the \<open>int64\<close> sum of the counts of a key.
\<close>

definition countRows :: "string list \<Rightarrow> string list" where
  "countRows ch = filter (\<lambda>l. length (Split l (CHR '' '')) = 2) ch"

definition keyOf :: "string \<Rightarrow> string" where
  "keyOf l = Split l (CHR '' '') ! 0"

definition countOf :: "string \<Rightarrow> int64" where
  "countOf l = fst (ParseInt (Split l (CHR '' '') ! 1))"

definition countParses :: "string \<Rightarrow> bool" where
  "countParses l = (snd (ParseInt (Split l (CHR '' '') ! 1)) = None)"

definition keyTotal :: "string list \<Rightarrow> string \<Rightarrow> int64" where
  "keyTotal ch k = sum_list (map countOf (filter (\<lambda>l. keyOf l = k) (countRows ch)))"

text \<open>The value of a decimal digit.\<close>

definition digitVal :: "char \<Rightarrow> int" where
  "digitVal c = int (byte c) - 48"


section \<open>The key normalizer: what formatLine returns\<close>

lemma writeSegments_concat:
  "writeSegments buf cs = buf @ concat (map segmentOut cs)"
  by (induction cs arbitrary: buf) (simp_all add: segmentOut_def)

lemma formatLine_wikiKey:
  "formatLine L lang0 site0 title0 val = wikiKey L lang0 site0 title0 @ '' '' @ val"
  by (simp add: formatLine_def wikiKey_def emittedTitle_def writeSegments_concat split: prod.splits)

lemma lineKey_append: "lineKey (k @ CHR '' '' # v) v = k"
  by (simp add: lineKey_def)


lemma IndexByte_append:
  "c \<notin> set a \<Longrightarrow> IndexByte (a @ c # b) c = Some (length a)"
  by (induction a) auto

lemma emitPageviews_formatLine:
  "0 < sint c \<Longrightarrow> CHR ''.'' \<notin> set lang \<Longrightarrow>
   emitPageviews L (lang @ ''.'' @ site) title c ch =
     ch @ [formatLine L lang site title (FormatInt c)]"
  by (simp add: emitPageviews_def IndexByte_append)

text \<open>
  C1. Two calls of \<open>formatLine\<close> with the same language, site and title return lines with
  the same key, whatever their values are (a view count on the pageview path, an entity
  on the sitelink path): the line is the key, one space and the value, and the key does
  not depend on the value. The pageview path, \<open>emitPageviews\<close> on the site column
  \<open>lang.site\<close>, sends a line with the very key that a call with another value returns.
\<close>

theorem formatLine_key_deterministic:
  "lineKey (formatLine L lang site title v1) v1 = lineKey (formatLine L lang site title v2) v2 \<and>
   formatLine L lang site title v1 = lineKey (formatLine L lang site title v1) v1 @ '' '' @ v1 \<and>
   (0 < sint c \<and> CHR ''.'' \<notin> set lang \<longrightarrow>
      emitPageviews L (lang @ ''.'' @ site) title c ch =
        ch @ [lineKey (formatLine L lang site title v2) v2 @ '' '' @ FormatInt c])"
proof (intro conjI impI)
  show "lineKey (formatLine L lang site title v1) v1 = lineKey (formatLine L lang site title v2) v2"
    by (simp add: formatLine_wikiKey lineKey_append)
  show "formatLine L lang site title v1 = lineKey (formatLine L lang site title v1) v1 @ '' '' @ v1"
    by (simp add: formatLine_wikiKey lineKey_append)
next
  assume "0 < sint c \<and> CHR ''.'' \<notin> set lang"
  then have "emitPageviews L (lang @ ''.'' @ site) title c ch =
      ch @ [formatLine L lang site title (FormatInt c)]"
    by (intro emitPageviews_formatLine) simp_all
  then show "emitPageviews L (lang @ ''.'' @ site) title c ch =
      ch @ [lineKey (formatLine L lang site title v2) v2 @ '' '' @ FormatInt c]"
    by (simp add: formatLine_wikiKey lineKey_append)
qed

theorem formatLine_key_deterministic_witness:
  "lineKey (formatLine latin_text ''als'' ''wikipedia'' ''Tianjin'' ''5'') ''5'' =
     lineKey (formatLine latin_text ''als'' ''wikipedia'' ''Tianjin'' ''Q11736'') ''Q11736'' \<and>
   formatLine latin_text ''als'' ''wikipedia'' ''Tianjin'' ''Q11736'' = ''gsw.wikipedia/tianjin Q11736'' \<and>
   emitPageviews latin_text ''als.wikipedia'' ''Tianjin'' 5 [] = [''gsw.wikipedia/tianjin 5'']"
proof -
  have f: "formatLine latin_text ''als'' ''wikipedia'' ''Tianjin'' ''Q11736'' = ''gsw.wikipedia/tianjin Q11736''"
    by code_simp
  have h: "0 < sint (5 :: int64) \<and> CHR ''.'' \<notin> set ''als''" "FormatInt 5 = ''5''"
    by code_simp+
  have k: "lineKey ''gsw.wikipedia/tianjin Q11736'' ''Q11736'' = ''gsw.wikipedia/tianjin''"
    by (simp add: lineKey_def)
  note t = formatLine_key_deterministic [of latin_text "''als''" "''wikipedia''" "''Tianjin''" "''5''"
      "''Q11736''" 5 "[]"]
  from t have "lineKey (formatLine latin_text ''als'' ''wikipedia'' ''Tianjin'' ''5'') ''5'' =
     lineKey (formatLine latin_text ''als'' ''wikipedia'' ''Tianjin'' ''Q11736'') ''Q11736''"
    by (rule conjunct1)
  moreover from t h(1)
  have "emitPageviews latin_text (''als'' @ ''.'' @ ''wikipedia'') ''Tianjin'' 5 [] =
      [] @ [lineKey (formatLine latin_text ''als'' ''wikipedia'' ''Tianjin'' ''Q11736'') ''Q11736'' @ '' '' @ FormatInt 5]"
    by blast
  ultimately show ?thesis
    using f h(2) k by simp
qed

subsection \<open>The rewrite table\<close>











subsection \<open>The shape of the line\<close>





subsection \<open>Failure\<close>

lemma readPageviews_skip_single:
  "parseRow text = Skip \<Longrightarrow> readPageviews L testRun [text] = []"
  by (simp add: readPageviews_def emitPageviews_def)

lemma parseRow_invalid_title:
  "length (Fields text) = 6 \<Longrightarrow> \<not> ValidString (unescapeTitle (Fields text ! 1)) \<Longrightarrow> parseRow text = Skip"
  by (simp add: parseRow_def Let_def)

text \<open>
  C7. \<open>formatLine\<close> has no failure: for every input it returns a line, a key that is
  not empty, one space and the value; it signals nothing and drops nothing. A row whose
  title is not valid UTF-8 is dropped by the caller, \<open>readPageviews\<close>, which skips it
  before \<open>formatLine\<close> is called.
\<close>

theorem formatLine_never_rejects:
  "(\<exists>key. key \<noteq> [] \<and> formatLine L lang site title val = key @ '' '' @ val) \<and>
   (length (Fields text) = 6 \<and> \<not> ValidString (unescapeTitle (Fields text ! 1)) \<longrightarrow>
      parseRow text = Skip \<and> readPageviews L testRun [text] = [])"
proof (intro conjI impI)
  have "wikiKey L lang site title \<noteq> []"
    by (simp add: wikiKey_def split: prod.splits)
  then show "\<exists>key. key \<noteq> [] \<and> formatLine L lang site title val = key @ '' '' @ val"
    using formatLine_wikiKey by blast
next
  assume h: "length (Fields text) = 6 \<and> \<not> ValidString (unescapeTitle (Fields text ! 1))"
  then show "parseRow text = Skip" by (simp add: parseRow_invalid_title)
  then show "readPageviews L testRun [text] = []" by (rule readPageviews_skip_single)
qed

theorem formatLine_never_rejects_witness:
  "length (Fields ''en.wikipedia %FF 3 desktop 3 A3'') = 6 \<and>
   \<not> ValidString (unescapeTitle (Fields ''en.wikipedia %FF 3 desktop 3 A3'' ! 1)) \<and>
   parseRow ''en.wikipedia %FF 3 desktop 3 A3'' = Skip \<and>
   readPageviews latin_text False [''en.wikipedia %FF 3 desktop 3 A3''] = []"
proof -
  have h: "length (Fields ''en.wikipedia %FF 3 desktop 3 A3'') = 6 \<and>
   \<not> ValidString (unescapeTitle (Fields ''en.wikipedia %FF 3 desktop 3 A3'' ! 1))"
    by code_simp
  show ?thesis
    using formatLine_never_rejects [of latin_text "''en''" "''wikipedia''" "[CHR 0xFF]" "''3''"
        "''en.wikipedia %FF 3 desktop 3 A3''" False] h
    by simp
qed

section \<open>The pageview reader\<close>

subsection \<open>The example of the daily log\<close>





subsection \<open>Rows the reader skips\<close>













section \<open>The Count Combiner\<close>

lemma writeCount_append: "writeCount w k c = w @ writeCount [] k c"
  by (simp add: writeCount_def)

lemma combineLoop_skip:
  "length (Split l (CHR '' '')) \<noteq> 2 \<Longrightarrow> combineLoop lk lc w (l # ch) = combineLoop lk lc w ch"
  by simp

lemma combineLoop_error:
  "length (Split l (CHR '' '')) = 2 \<Longrightarrow> snd (ParseInt (Split l (CHR '' '') ! 1)) = Some err \<Longrightarrow>
   combineLoop lk lc w (l # ch) = (w, Some err)"
  by (cases "ParseInt (Split l (CHR '' '') ! 1)") (simp add: Let_def)

lemma combineLoop_row:
  "length (Split l (CHR '' '')) = 2 \<Longrightarrow> countParses l \<Longrightarrow>
   combineLoop lk lc w (l # ch) =
     (if keyOf l = lk then combineLoop lk (lc + countOf l) w ch
      else combineLoop (keyOf l) (countOf l) (writeCount w lk lc) ch)"
  by (cases "ParseInt (Split l (CHR '' '') ! 1)") (simp add: Let_def countParses_def keyOf_def countOf_def)

lemma keyTotal_skip:
  "length (Split l (CHR '' '')) \<noteq> 2 \<Longrightarrow> keyTotal (l # ch) k = keyTotal ch k"
  by (simp add: keyTotal_def countRows_def)

lemma keyTotal_row:
  "length (Split l (CHR '' '')) = 2 \<Longrightarrow>
   keyTotal (l # ch) k = (if keyOf l = k then countOf l else 0) + keyTotal ch k"
  by (simp add: keyTotal_def countRows_def)

lemma countRows_Cons:
  "countRows (l # ch) = (if length (Split l (CHR '' '')) = 2 then l # countRows ch else countRows ch)"
  by (simp add: countRows_def)

lemma keyTotal_absent:
  "k \<notin> set (map keyOf (countRows ch)) \<Longrightarrow> keyTotal ch k = 0"
proof -
  assume "k \<notin> set (map keyOf (countRows ch))"
  then have "filter (\<lambda>l. keyOf l = k) (countRows ch) = []"
    by (auto simp: filter_empty_conv)
  then show ?thesis by (simp add: keyTotal_def)
qed

lemma combineLoop_sorted:
  "\<forall>l \<in> set (countRows ch). countParses l \<Longrightarrow> sorted (lk # map keyOf (countRows ch)) \<Longrightarrow>
   combineLoop lk lc w ch =
     (w @ concat (map (\<lambda>k. writeCount [] k ((if k = lk then lc else 0) + keyTotal ch k))
            (remdups (lk # map keyOf (countRows ch)))), None)"
proof (induction ch arbitrary: lk lc w)
  case Nil
  then show ?case
    by (simp add: keyTotal_def countRows_def writeCount_append [of w])
next
  case (Cons l ch)
  let ?keys = "map keyOf (countRows ch)"
  show ?case
  proof (cases "length (Split l (CHR '' '')) = 2")
    case False
    with Cons show ?thesis
      by (simp add: keyTotal_skip countRows_Cons)
  next
    case True
    with Cons.prems have p: "countParses l" and rest: "\<forall>l \<in> set (countRows ch). countParses l"
      by (simp_all add: countRows_Cons)
    from True Cons.prems(2) have s: "sorted (lk # keyOf l # ?keys)"
      by (simp add: countRows_Cons)
    have rows: "map keyOf (countRows (l # ch)) = keyOf l # ?keys"
      using True by (simp add: countRows_Cons)
    show ?thesis
    proof (cases "keyOf l = lk")
      case same: True
      from s same have "sorted (lk # ?keys)" by simp
      note ih = Cons.IH [OF rest this, of "lc + countOf l" w]
      have f: "(\<lambda>k. writeCount [] k ((if k = lk then lc else 0) + keyTotal (l # ch) k)) =
               (\<lambda>k. writeCount [] k ((if k = lk then lc + countOf l else 0) + keyTotal ch k))"
        using True same by (auto simp: fun_eq_iff keyTotal_row add.assoc)
      have r: "remdups (lk # keyOf l # ?keys) = remdups (lk # ?keys)"
        using same by simp
      have "combineLoop lk lc w (l # ch) = combineLoop lk (lc + countOf l) w ch"
        using True p same by (simp add: combineLoop_row del: combineLoop.simps)
      then show ?thesis
        by (simp only: ih rows f r)
    next
      case diff: False
      from s have s': "sorted (keyOf l # ?keys)" by simp
      from s diff have "lk < keyOf l" by (auto simp: less_le)
      with s have notin: "lk \<notin> set (keyOf l # ?keys)"
        by (auto simp del: set_map)
      then have t0: "keyTotal ch lk = 0"
        by (intro keyTotal_absent) simp
      note ih = Cons.IH [OF rest s', of "countOf l" "writeCount w lk lc"]
      have eq: "map (\<lambda>k. writeCount [] k ((if k = lk then lc else 0) + keyTotal (l # ch) k))
                  (remdups (keyOf l # ?keys)) =
                map (\<lambda>k. writeCount [] k ((if k = keyOf l then countOf l else 0) + keyTotal ch k))
                  (remdups (keyOf l # ?keys))"
      proof (rule map_cong [OF refl])
        fix k assume "k \<in> set (remdups (keyOf l # ?keys))"
        then have "k \<in> set (keyOf l # ?keys)" by (simp only: set_remdups)
        with notin have "k \<noteq> lk" by blast
        then show "writeCount [] k ((if k = lk then lc else 0) + keyTotal (l # ch) k) =
            writeCount [] k ((if k = keyOf l then countOf l else 0) + keyTotal ch k)"
          using True by (auto simp: keyTotal_row)
      qed
      have r: "remdups (lk # keyOf l # ?keys) = lk # remdups (keyOf l # ?keys)"
        using notin by simp
      have tl: "keyTotal (l # ch) lk = 0"
        using True diff t0 by (simp add: keyTotal_row)
      have fl: "writeCount [] lk ((if lk = lk then lc else 0) + keyTotal (l # ch) lk) = writeCount [] lk lc"
        by (simp add: tl)
      have step: "combineLoop lk lc w (l # ch) = combineLoop (keyOf l) (countOf l) (writeCount w lk lc) ch"
        using True p diff by (simp add: combineLoop_row del: combineLoop.simps)
      have out: "concat (map (\<lambda>k. writeCount [] k ((if k = lk then lc else 0) + keyTotal (l # ch) k))
                    (remdups (lk # map keyOf (countRows (l # ch))))) =
                 writeCount [] lk lc @
                 concat (map (\<lambda>k. writeCount [] k ((if k = keyOf l then countOf l else 0) + keyTotal ch k))
                    (remdups (keyOf l # ?keys)))"
        unfolding rows r by (simp only: list.map concat.simps fl eq)
      show ?thesis
        unfolding step ih out by (simp add: writeCount_append [of w])
    qed
  qed
qed


lemma sint_sum_list:
  "sint (sum_list ws :: int64) = signed_take_bit 63 (sum_list (map sint ws))"
proof (induction ws)
  case Nil
  show ?case by simp
next
  case (Cons a ws)
  have "sint (a + sum_list ws) = signed_take_bit 63 (sint a + sint (sum_list ws))"
    by (simp add: sint_word_ariths)
  also have "\<dots> = signed_take_bit 63 (sint a + sum_list (map sint ws))"
    unfolding Cons.IH
    by (metis signed_take_bit_add signed_take_bit_signed_take_bit order_refl min.idem)
  finally show ?case by simp
qed

lemma keyTotal_exact:
  assumes "- (2 ^ 63) \<le> sum_list (map (sint \<circ> countOf) (filter (\<lambda>l. keyOf l = k) (countRows ch)))"
    and "sum_list (map (sint \<circ> countOf) (filter (\<lambda>l. keyOf l = k) (countRows ch))) < 2 ^ 63"
  shows "sint (keyTotal ch k) = sum_list (map (sint \<circ> countOf) (filter (\<lambda>l. keyOf l = k) (countRows ch)))"
  using assms by (simp add: keyTotal_def sint_sum_list signed_take_bit_int_eq_self)

lemma concat_map_writeCount:
  "concat (map (\<lambda>k. writeCount [] k (f k)) ks) =
   map (\<lambda>k. k @ '' '' @ FormatInt (f k) @ [CHR 0x0A]) (filter (\<lambda>k. 0 < sint (f k)) ks)"
  by (induction ks) (simp_all add: writeCount_def)

lemma combineCounts_sorted:
  assumes "\<forall>l \<in> set (countRows ch). countParses l" and "sorted (map keyOf (countRows ch))"
  shows "combineCounts ch =
    (map (\<lambda>k. k @ '' '' @ FormatInt (keyTotal ch k) @ [CHR 0x0A])
       (filter (\<lambda>k. 0 < sint (keyTotal ch k)) (remdups (map keyOf (countRows ch)))), None)"
proof -
  let ?keys = "map keyOf (countRows ch)"
  have s: "sorted ([] # ?keys)" using assms(2) by simp
  have "combineCounts ch =
      (concat (map (\<lambda>k. writeCount [] k ((if k = [] then 0 else 0) + keyTotal ch k))
            (remdups ([] # ?keys))), None)"
    unfolding combineCounts_def using combineLoop_sorted [OF assms(1) s, of 0 "[]"] by simp
  then have c: "combineCounts ch =
      (map (\<lambda>k. k @ '' '' @ FormatInt (keyTotal ch k) @ [CHR 0x0A])
         (filter (\<lambda>k. 0 < sint (keyTotal ch k)) (remdups ([] # ?keys))), None)"
    by (simp only: concat_map_writeCount if_cancel add_0)
  show ?thesis
  proof (cases "[] \<in> set ?keys")
    case True
    then have "remdups ([] # ?keys) = remdups ?keys" by simp
    with c show ?thesis by (simp only:)
  next
    case False
    then have "keyTotal ch [] = 0" by (rule keyTotal_absent)
    moreover from False have "remdups ([] # ?keys) = [] # remdups ?keys" by simp
    ultimately show ?thesis
      using c by simp
  qed
qed

text \<open>
  C5. Let the lines of two fields of the input carry counts that parse, and let their
  keys be sorted. Then \<open>combineCounts\<close> returns without error and has written exactly
  one line \<open>key total\<close> for each distinct key whose total is positive, in the order of
  the keys, and no line for a key whose total is 0 or less. The total is the \<open>int64\<close>
  sum of the counts of the key; it is their sum as integers whenever that sum fits
  \<open>int64\<close>.
\<close>

theorem combineCounts_sums_sorted_keys:
  assumes "\<forall>l \<in> set (countRows ch). countParses l" and "sorted (map keyOf (countRows ch))"
  shows "combineCounts ch =
      (map (\<lambda>k. k @ '' '' @ FormatInt (keyTotal ch k) @ [CHR 0x0A])
         (filter (\<lambda>k. 0 < sint (keyTotal ch k)) (remdups (map keyOf (countRows ch)))), None) \<and>
    distinct (filter (\<lambda>k. 0 < sint (keyTotal ch k)) (remdups (map keyOf (countRows ch)))) \<and>
    (- (2 ^ 63) \<le> sum_list (map (sint \<circ> countOf) (filter (\<lambda>l. keyOf l = k) (countRows ch))) \<and>
     sum_list (map (sint \<circ> countOf) (filter (\<lambda>l. keyOf l = k) (countRows ch))) < 2 ^ 63 \<longrightarrow>
     sint (keyTotal ch k) = sum_list (map (sint \<circ> countOf) (filter (\<lambda>l. keyOf l = k) (countRows ch))))"
  using combineCounts_sorted [OF assms] keyTotal_exact [of k ch] by simp


theorem combineCounts_sums_sorted_keys_witness:
  "combineCounts [''a 1'', ''a 2 3'', ''a 2'', ''b 0'', ''c -4'', ''c 5''] =
     ([''a 3'' @ [CHR 0x0A], ''c 1'' @ [CHR 0x0A]], None) \<and>
   sint (keyTotal [''a 1'', ''a 2 3'', ''a 2'', ''b 0'', ''c -4'', ''c 5''] ''c'') = 1"
proof -
  let ?ch = "[''a 1'', ''a 2 3'', ''a 2'', ''b 0'', ''c -4'', ''c 5'']"
  have rows: "countRows ?ch = [''a 1'', ''a 2'', ''b 0'', ''c -4'', ''c 5'']"
    by code_simp
  have h1: "\<forall>l \<in> set (countRows ?ch). countParses l"
    unfolding rows by code_simp
  have h2: "sorted (map keyOf (countRows ?ch))"
    unfolding rows by code_simp
  have v: "map (\<lambda>k. k @ '' '' @ FormatInt (keyTotal ?ch k) @ [CHR 0x0A])
         (filter (\<lambda>k. 0 < sint (keyTotal ?ch k)) (remdups (map keyOf (countRows ?ch)))) =
        [''a 3'' @ [CHR 0x0A], ''c 1'' @ [CHR 0x0A]]"
    by code_simp
  have e: "sum_list (map (sint \<circ> countOf) (filter (\<lambda>l. keyOf l = ''c'') (countRows ?ch))) = 1"
    by code_simp
  show ?thesis
    using combineCounts_sums_sorted_keys [OF h1 h2, of "''c''"] v e by simp
qed

lemma combineLoop_drop_skipped:
  "length (Split l (CHR '' '')) \<noteq> 2 \<Longrightarrow>
   combineLoop lk lc w (before @ l # after) = combineLoop lk lc w (before @ after)"
  by (induction before arbitrary: lk lc w) (simp_all add: Let_def split: prod.splits option.splits)

lemma combineLoop_fatal:
  "length (Split l (CHR '' '')) = 2 \<Longrightarrow> snd (ParseInt (Split l (CHR '' '') ! 1)) \<noteq> None \<Longrightarrow>
   snd (combineLoop lk lc w (before @ l # after)) \<noteq> None"
  by (induction before arbitrary: lk lc w) (auto simp: Let_def split: prod.splits option.splits)

text \<open>
  C6, as the code has it. A line that does not have exactly two fields is skipped: the
  loop goes on with its key, its count and its output unchanged. A line of two fields
  whose count does not parse is not skipped: \<open>combineCounts\<close> returns the parse error at
  once, and writes nothing more.
\<close>

theorem combineCounts_malformed_lines:
  "(length (Split l (CHR '' '')) \<noteq> 2 \<longrightarrow>
      combineLoop lk lc w (l # ch) = combineLoop lk lc w ch \<and>
      combineCounts (before @ l # after) = combineCounts (before @ after)) \<and>
   (length (Split l (CHR '' '')) = 2 \<and> snd (ParseInt (Split l (CHR '' '') ! 1)) = Some err \<longrightarrow>
      combineLoop lk lc w (l # ch) = (w, Some err) \<and>
      snd (combineCounts (before @ l # after)) \<noteq> None)"
  by (simp add: combineLoop_skip combineLoop_error combineLoop_drop_skipped combineLoop_fatal
        combineCounts_def del: combineLoop.simps)

theorem combineCounts_malformed_lines_witness:
  "length (Split ''a 2 3'' (CHR '' '')) \<noteq> 2 \<and>
   combineCounts ([''a 1''] @ ''a 2 3'' # [''a 2'']) = combineCounts ([''a 1''] @ [''a 2'']) \<and>
   combineCounts ([''a 1''] @ [''a 2'']) = ([''a 3'' @ [CHR 0x0A]], None) \<and>
   length (Split ''a x'' (CHR '' '')) = 2 \<and> snd (ParseInt (Split ''a x'' (CHR '' '') ! 1)) = Some ErrSyntax \<and>
   combineLoop ''a'' 1 [] (''a x'' # [''a 2'']) = ([], Some ErrSyntax) \<and>
   snd (combineCounts ([''a 1''] @ ''a x'' # [''a 2''])) \<noteq> None"
proof -
  have h1: "length (Split ''a 2 3'' (CHR '' '')) \<noteq> 2"
    by code_simp
  have h2: "length (Split ''a x'' (CHR '' '')) = 2 \<and> snd (ParseInt (Split ''a x'' (CHR '' '') ! 1)) = Some ErrSyntax"
    by code_simp
  have v: "combineCounts ([''a 1''] @ [''a 2'']) = ([''a 3'' @ [CHR 0x0A]], None)"
    by code_simp
  note a = combineCounts_malformed_lines [where l = "''a 2 3''" and before = "[''a 1'']" and after = "[''a 2'']",
      THEN conjunct1]
  note b = combineCounts_malformed_lines [where l = "''a x''" and before = "[''a 1'']" and after = "[''a 2'']"
      and err = ErrSyntax and lk = "''a''" and lc = 1 and w = "[]" and ch = "[''a 2'']", THEN conjunct2]
  from a h1 have c1: "combineCounts ([''a 1''] @ ''a 2 3'' # [''a 2'']) = combineCounts ([''a 1''] @ [''a 2''])"
    by blast
  from b h2 have c2: "combineLoop ''a'' 1 [] (''a x'' # [''a 2'']) = ([], Some ErrSyntax)"
    "snd (combineCounts ([''a 1''] @ ''a x'' # [''a 2''])) \<noteq> None"
    by blast+
  show ?thesis
    using h1 h2 v c1 c2 by (simp del: combineLoop.simps)
qed

text \<open>
  The claim C6 as the specification words it fails: a line whose integer does not parse
  is not skipped. With it between two lines of the same key the run ends in the error
  and writes nothing; without it the run writes the sum.
\<close>

theorem combineCounts_unparseable_counterexample:
  "combineCounts [''a 1'', ''a x'', ''a 2''] = ([], Some ErrSyntax) \<and>
   combineCounts [''a 1'', ''a 2''] = ([''a 3'' @ [CHR 0x0A]], None)"
  by code_simp

section \<open>ISO weeks\<close>

subsection \<open>ParseISOWeek\<close>

lemma sint_small:
  "- (2 ^ 63) \<le> n \<Longrightarrow> n < 2 ^ 63 \<Longrightarrow> sint (word_of_int n :: int64) = n"
  by (simp add: sint_sbintrunc' signed_take_bit_int_eq_self)

lemma isDigit_not_sign: "isDigit c \<Longrightarrow> c \<noteq> CHR ''-'' \<and> c \<noteq> CHR ''+''"
  by (auto simp: isDigit_def byte_def)

lemma digitVal_range: "isDigit c \<Longrightarrow> 0 \<le> digitVal c \<and> digitVal c \<le> 9"
  by (auto simp: isDigit_def digitVal_def)

lemma Atoi_digits2:
  assumes "isDigit a" "isDigit b"
  shows "Atoi [a, b] = (digitVal a * 10 + digitVal b, None)"
proof -
  let ?n = "digitVal a * 10 + digitVal b"
  from assms have r: "0 \<le> ?n" "?n \<le> 99"
    using digitVal_range [of a] digitVal_range [of b] by auto
  then have u: "ParseUint [a, b] = Inr ?n"
    using assms by (simp add: ParseUint_def digitVal_def)
  have "sint (word_of_int ?n :: int64) = ?n"
    using r by (intro sint_small) simp_all
  then show ?thesis
    using assms(1) r u isDigit_not_sign [of a] by (simp add: Atoi_def ParseInt_def)
qed

lemma Atoi_digits4:
  assumes "isDigit a" "isDigit b" "isDigit c" "isDigit d"
  shows "Atoi [a, b, c, d] =
    (digitVal a * 1000 + digitVal b * 100 + digitVal c * 10 + digitVal d, None)"
proof -
  let ?n = "digitVal a * 1000 + digitVal b * 100 + digitVal c * 10 + digitVal d"
  from assms have r: "0 \<le> ?n" "?n \<le> 9999"
    using digitVal_range [of a] digitVal_range [of b] digitVal_range [of c] digitVal_range [of d]
    by auto
  have r2: "0 \<le> digitVal a * 10 + digitVal b" "digitVal a * 10 + digitVal b \<le> 99"
    "0 \<le> (digitVal a * 10 + digitVal b) * 10 + digitVal c"
    "(digitVal a * 10 + digitVal b) * 10 + digitVal c \<le> 999"
    using digitVal_range [of a] digitVal_range [of b] digitVal_range [of c] assms by auto
  have u: "ParseUint [a, b, c, d] = Inr ?n"
    using assms r r2 digitVal_range [of a] by (simp add: ParseUint_def digitVal_def algebra_simps)
  have "sint (word_of_int ?n :: int64) = ?n"
    using r by (intro sint_small) simp_all
  then show ?thesis
    using assms(1) r u isDigit_not_sign [of a] by (simp add: Atoi_def ParseInt_def)
qed

lemma matchHere_Some:
  "matchHere s = Some m \<longleftrightarrow>
   (\<exists>d1 d2 d3 d4 e1 e2 post. s = [d1, d2, d3, d4] @ ''-W'' @ [e1, e2] @ post \<and>
      isDigit d1 \<and> isDigit d2 \<and> isDigit d3 \<and> isDigit d4 \<and> isDigit e1 \<and> isDigit e2 \<and>
      m = [[d1, d2, d3, d4] @ ''-W'' @ [e1, e2], [d1, d2, d3, d4], [e1, e2]])"
  by (auto simp: matchHere_def split: list.splits)

lemma FindStringSubmatch_None:
  "FindStringSubmatch s = None \<longleftrightarrow> (\<forall>pre post. s = pre @ post \<longrightarrow> matchHere post = None)"
proof (induction s)
  case Nil
  show ?case by (simp add: matchHere_def)
next
  case (Cons c s)
  show ?case
  proof
    assume n: "FindStringSubmatch (c # s) = None"
    then have h: "matchHere (c # s) = None" and t: "FindStringSubmatch s = None"
      by (auto split: option.splits)
    show "\<forall>pre post. c # s = pre @ post \<longrightarrow> matchHere post = None"
    proof (intro allI impI)
      fix pre post assume e: "c # s = pre @ post"
      show "matchHere post = None"
      proof (cases pre)
        case Nil
        with e h show ?thesis by simp
      next
        case (Cons x pre')
        with e have "s = pre' @ post" by simp
        with t Cons.IH show ?thesis by blast
      qed
    qed
  next
    assume a: "\<forall>pre post. c # s = pre @ post \<longrightarrow> matchHere post = None"
    then have h: "matchHere (c # s) = None" by (metis append_Nil)
    have "\<forall>pre post. s = pre @ post \<longrightarrow> matchHere post = None"
      using a by (metis append_Cons)
    with Cons.IH have "FindStringSubmatch s = None" by blast
    with h show "FindStringSubmatch (c # s) = None" by simp
  qed
qed

lemma FindStringSubmatch_first:
  "matchHere post = Some m \<Longrightarrow> (\<forall>i < length pre. matchHere (drop i (pre @ post)) = None) \<Longrightarrow>
   FindStringSubmatch (pre @ post) = Some m"
proof (induction pre)
  case Nil
  then show ?case by (cases post) (simp_all add: matchHere_def)
next
  case (Cons c pre)
  from Cons.prems(2) have "matchHere (drop 0 ((c # pre) @ post)) = None" by blast
  then have h: "matchHere (c # pre @ post) = None" by simp
  have "\<forall>i < length pre. matchHere (drop i (pre @ post)) = None"
  proof (intro allI impI)
    fix i assume "i < length pre"
    then have "Suc i < length (c # pre)" by simp
    with Cons.prems(2) have "matchHere (drop (Suc i) ((c # pre) @ post)) = None" by blast
    then show "matchHere (drop i (pre @ post)) = None" by simp
  qed
  with Cons.IH Cons.prems(1) have "FindStringSubmatch (pre @ post) = Some m" by blast
  with h show ?case by simp
qed


lemma all_less_list_all: "(\<forall>i < n. P i) = list_all P [0..<n]"
  by (auto simp: list_all_iff)

lemma ParseISOWeek_match:
  assumes "matchHere post = Some m" "\<forall>i < length pre. matchHere (drop i (pre @ post)) = None"
    and "post = [d1, d2, d3, d4] @ ''-W'' @ [e1, e2] @ x"
  shows "ParseISOWeek (pre @ post) =
    (digitVal d1 * 1000 + digitVal d2 * 100 + digitVal d3 * 10 + digitVal d4,
     digitVal e1 * 10 + digitVal e2, None)"
proof -
  from assms(1,3) have d: "isDigit d1" "isDigit d2" "isDigit d3" "isDigit d4" "isDigit e1" "isDigit e2"
    and m: "m = [[d1, d2, d3, d4] @ ''-W'' @ [e1, e2], [d1, d2, d3, d4], [e1, e2]]"
    by (auto simp: matchHere_Some)
  have "FindStringSubmatch (pre @ post) = Some m"
    using assms(1,2) by (rule FindStringSubmatch_first)
  then show ?thesis
    using d m by (simp add: ParseISOWeek_def Atoi_digits4 Atoi_digits2)
qed

lemma FindStringSubmatch_length:
  "FindStringSubmatch t = Some m \<Longrightarrow> length m = 3"
proof (induction t)
  case Nil
  then show ?case by simp
next
  case (Cons c t)
  show ?case
  proof (cases "matchHere (c # t)")
    case None
    with Cons show ?thesis by simp
  next
    case (Some m')
    with Cons.prems have "m' = m" by simp
    with Some show ?thesis unfolding matchHere_Some by auto
  qed
qed

lemma matchHere_digits:
  "isDigit d1 \<and> isDigit d2 \<and> isDigit d3 \<and> isDigit d4 \<and> isDigit e1 \<and> isDigit e2 \<Longrightarrow>
   matchHere ([d1, d2, d3, d4] @ ''-W'' @ [e1, e2] @ post) =
     Some [[d1, d2, d3, d4] @ ''-W'' @ [e1, e2], [d1, d2, d3, d4], [e1, e2]]"
  by (simp add: matchHere_def)

lemma ParseISOWeek_error_iff:
  "(snd (snd (ParseISOWeek s)) \<noteq> None) = (FindStringSubmatch s = None)"
proof (cases "FindStringSubmatch s")
  case None
  then show ?thesis by (simp add: ParseISOWeek_def)
next
  case (Some m)
  then have "length m = 3" by (rule FindStringSubmatch_length)
  with Some show ?thesis by (simp add: ParseISOWeek_def)
qed

lemma FindStringSubmatch_None_digits:
  "(FindStringSubmatch s = None) =
   (\<not> (\<exists>pre d1 d2 d3 d4 e1 e2 post.
          s = pre @ [d1, d2, d3, d4] @ ''-W'' @ [e1, e2] @ post \<and>
          isDigit d1 \<and> isDigit d2 \<and> isDigit d3 \<and> isDigit d4 \<and> isDigit e1 \<and> isDigit e2))"
proof
  assume n: "FindStringSubmatch s = None"
  show "\<not> (\<exists>pre d1 d2 d3 d4 e1 e2 post.
          s = pre @ [d1, d2, d3, d4] @ ''-W'' @ [e1, e2] @ post \<and>
          isDigit d1 \<and> isDigit d2 \<and> isDigit d3 \<and> isDigit d4 \<and> isDigit e1 \<and> isDigit e2)"
  proof
    assume "\<exists>pre d1 d2 d3 d4 e1 e2 post.
          s = pre @ [d1, d2, d3, d4] @ ''-W'' @ [e1, e2] @ post \<and>
          isDigit d1 \<and> isDigit d2 \<and> isDigit d3 \<and> isDigit d4 \<and> isDigit e1 \<and> isDigit e2"
    then obtain pre d1 d2 d3 d4 e1 e2 post where
      e: "s = pre @ [d1, d2, d3, d4] @ ''-W'' @ [e1, e2] @ post" and
      d: "isDigit d1 \<and> isDigit d2 \<and> isDigit d3 \<and> isDigit d4 \<and> isDigit e1 \<and> isDigit e2"
      by blast
    from n e have "matchHere ([d1, d2, d3, d4] @ ''-W'' @ [e1, e2] @ post) = None"
      unfolding FindStringSubmatch_None by blast
    with matchHere_digits [OF d, of post] show False by simp
  qed
next
  assume r: "\<not> (\<exists>pre d1 d2 d3 d4 e1 e2 post.
          s = pre @ [d1, d2, d3, d4] @ ''-W'' @ [e1, e2] @ post \<and>
          isDigit d1 \<and> isDigit d2 \<and> isDigit d3 \<and> isDigit d4 \<and> isDigit e1 \<and> isDigit e2)"
  show "FindStringSubmatch s = None"
    unfolding FindStringSubmatch_None
  proof (intro allI impI)
    fix pre post assume e: "s = pre @ post"
    show "matchHere post = None"
    proof (cases "matchHere post")
      case None
      then show ?thesis .
    next
      case (Some m)
      then obtain d1 d2 d3 d4 e1 e2 x where
        p: "post = [d1, d2, d3, d4] @ ''-W'' @ [e1, e2] @ x" and
        d: "isDigit d1 \<and> isDigit d2 \<and> isDigit d3 \<and> isDigit d4 \<and> isDigit e1 \<and> isDigit e2"
        unfolding matchHere_Some by blast
      from e p have "s = pre @ [d1, d2, d3, d4] @ ''-W'' @ [e1, e2] @ x" by simp
      with d r show ?thesis by blast
    qed
  qed
qed

text \<open>
  C10. \<open>ParseISOWeek\<close> returns an error exactly when no part of its argument is four
  digits, \<open>-W\<close> and two digits. The pattern is not anchored: where the argument has such
  a part, the function returns the year and the week of the leftmost one, whatever stands
  before and after it, as for \<open>2023-W0712\<close> and \<open>x2023-W07y\<close>.
\<close>

theorem ParseISOWeek_unanchored:
  "((snd (snd (ParseISOWeek s)) \<noteq> None) =
      (\<not> (\<exists>pre d1 d2 d3 d4 e1 e2 post.
            s = pre @ [d1, d2, d3, d4] @ ''-W'' @ [e1, e2] @ post \<and>
            isDigit d1 \<and> isDigit d2 \<and> isDigit d3 \<and> isDigit d4 \<and> isDigit e1 \<and> isDigit e2))) \<and>
   (isDigit a1 \<and> isDigit a2 \<and> isDigit a3 \<and> isDigit a4 \<and> isDigit b1 \<and> isDigit b2 \<and>
    (\<forall>i < length p. matchHere (drop i (p @ [a1, a2, a3, a4] @ ''-W'' @ [b1, b2] @ q)) = None) \<longrightarrow>
      ParseISOWeek (p @ [a1, a2, a3, a4] @ ''-W'' @ [b1, b2] @ q) =
        (digitVal a1 * 1000 + digitVal a2 * 100 + digitVal a3 * 10 + digitVal a4,
         digitVal b1 * 10 + digitVal b2, None)) \<and>
   ParseISOWeek ''2023-W0712'' = (2023, 7, None) \<and>
   ParseISOWeek ''x2023-W07y'' = (2023, 7, None)"
proof (intro conjI impI)
  show "(snd (snd (ParseISOWeek s)) \<noteq> None) =
      (\<not> (\<exists>pre d1 d2 d3 d4 e1 e2 post.
            s = pre @ [d1, d2, d3, d4] @ ''-W'' @ [e1, e2] @ post \<and>
            isDigit d1 \<and> isDigit d2 \<and> isDigit d3 \<and> isDigit d4 \<and> isDigit e1 \<and> isDigit e2))"
    by (simp only: ParseISOWeek_error_iff FindStringSubmatch_None_digits)
next
  assume a: "isDigit a1 \<and> isDigit a2 \<and> isDigit a3 \<and> isDigit a4 \<and> isDigit b1 \<and> isDigit b2 \<and>
    (\<forall>i < length p. matchHere (drop i (p @ [a1, a2, a3, a4] @ ''-W'' @ [b1, b2] @ q)) = None)"
  then have d: "isDigit a1 \<and> isDigit a2 \<and> isDigit a3 \<and> isDigit a4 \<and> isDigit b1 \<and> isDigit b2"
    and n: "\<forall>i < length p. matchHere (drop i (p @ [a1, a2, a3, a4] @ ''-W'' @ [b1, b2] @ q)) = None"
    by blast+
  show "ParseISOWeek (p @ [a1, a2, a3, a4] @ ''-W'' @ [b1, b2] @ q) =
        (digitVal a1 * 1000 + digitVal a2 * 100 + digitVal a3 * 10 + digitVal a4,
         digitVal b1 * 10 + digitVal b2, None)"
    using matchHere_digits [OF d] n refl by (rule ParseISOWeek_match)
next
  show "ParseISOWeek ''2023-W0712'' = (2023, 7, None)"
    by code_simp
  show "ParseISOWeek ''x2023-W07y'' = (2023, 7, None)"
    by code_simp
qed

theorem ParseISOWeek_unanchored_witness:
  "ParseISOWeek (''week '' @ ''2018'' @ ''-W'' @ ''51'' @ ''-2019-W02'') = (2018, 51, None) \<and>
   snd (snd (ParseISOWeek ''2023-12-24'')) \<noteq> None"
proof -
  have d: "isDigit (CHR ''2'') \<and> isDigit (CHR ''0'') \<and> isDigit (CHR ''1'') \<and> isDigit (CHR ''8'') \<and>
      isDigit (CHR ''5'') \<and> isDigit (CHR ''1'')"
    by code_simp
  have n: "\<forall>i < length ''week ''. matchHere (drop i (''week '' @ ''2018'' @ ''-W'' @ ''51'' @ ''-2019-W02'')) = None"
    unfolding all_less_list_all by code_simp
  have v: "digitVal (CHR ''2'') * 1000 + digitVal (CHR ''0'') * 100 + digitVal (CHR ''1'') * 10 + digitVal (CHR ''8'') = 2018"
    "digitVal (CHR ''5'') * 10 + digitVal (CHR ''1'') = 51"
    by (simp_all add: digitVal_def byte_def)
  have e: "snd (snd (ParseISOWeek ''2023-12-24'')) \<noteq> None"
    by code_simp
  note t = ParseISOWeek_unanchored [where p = "''week ''" and q = "''-2019-W02''"
      and ?a1.0 = "CHR ''2''" and ?a2.0 = "CHR ''0''" and ?a3.0 = "CHR ''1''" and ?a4.0 = "CHR ''8''"
      and ?b1.0 = "CHR ''5''" and ?b2.0 = "CHR ''1''"]
  from t [THEN conjunct2, THEN conjunct1] d n
  have "ParseISOWeek (''week '' @ [CHR ''2'', CHR ''0'', CHR ''1'', CHR ''8''] @ ''-W'' @ [CHR ''5'', CHR ''1''] @ ''-2019-W02'') =
      (2018, 51, None)"
    unfolding v by blast
  with e show ?thesis by simp
qed

subsection \<open>ISOWeekStart\<close>




















end
